theory Spec2Isabelle
  imports Main "HOL-Library.Word"
begin

unbundle bit_operations_syntax

section \<open>Bytes, slices and errors\<close>

text \<open>
  A Go \<open>byte\<close> is an 8-bit word; a \<open>[]byte\<close>, a \<open>string\<close> and the fixed arrays
  \<open>Topic\<close> (32 bytes), \<open>Address\<close> (20 bytes), \<open>Hash\<close> (32 bytes) and \<open>Signature\<close>
  (65 bytes) are lists of bytes. A slice that may be \<open>nil\<close> and is tested for it is an
  \<open>option\<close>.
\<close>

type_synonym byte = "8 word"
type_synonym bytes = "byte list"

definition ChunkAddressLength :: nat where
  "ChunkAddressLength = 32"

definition TopicLength :: nat where
  "TopicLength = ChunkAddressLength"

definition HashLength :: nat where
  "HashLength = 32"

definition AddressLength :: nat where
  "AddressLength = 20"

definition signatureLength :: nat where
  "signatureLength = 65"

definition feedLength :: nat where
  "feedLength = TopicLength + AddressLength"

text \<open>The bytes of an ASCII string literal.\<close>

definition ascii :: "string \<Rightarrow> bytes" where
  "ascii s = map (\<lambda>c. word_of_nat (of_char c)) s"

text \<open>
  Rendering of a natural number by the verb \<open>%d\<close> of \<open>fmt\<close>: its decimal digits,
  most significant first.
\<close>

definition digit_char :: "nat \<Rightarrow> char" where
  "digit_char d = ''0123456789'' ! d"

function decimal :: "nat \<Rightarrow> string" where
  "decimal n = (if n < 10 then [digit_char n] else decimal (n div 10) @ [digit_char (n mod 10)])"
  by pat_completeness auto
termination
  by (relation "measure id") auto

text \<open>
  Modelled from the spec: the error codes of the package are declared outside the source
  files; the two that the functions below use are \<open>ErrNotFound\<close> and \<open>ErrInvalidValue\<close>.
\<close>

datatype errcode = ErrNotFound | ErrInvalidValue

text \<open>
  A Go \<open>error\<close> value: one made by \<open>errors.New\<close> or \<open>fmt.Errorf\<close> carries its text, the
  \<open>InvalidByteError\<close> of \<open>encoding/hex\<close> carries the offending byte, and one made by the
  package's \<open>NewError\<close>/\<open>NewErrorf\<close> carries a code and its text.
\<close>

datatype error =
    ErrorString string
  | InvalidByteError byte
  | FeedError errcode string

text \<open>
  Modelled from the spec: \<open>NewError\<close> and \<open>NewErrorf\<close> are not among the source files;
  the error they build pairs the code with the formatted message. The format strings of
  the callers are expanded where they are called.
\<close>

definition NewError :: "errcode \<Rightarrow> string \<Rightarrow> error" where
  "NewError code s = FeedError code s"

text \<open>A computation that either returns or panics at run time.\<close>

datatype 'a go = Return 'a | Panic

text \<open>
  The built-in \<open>copy(dst, src)\<close>: the first \<open>min (len dst) (len src)\<close> elements of
  \<open>dst\<close> are overwritten, the rest of \<open>dst\<close> is kept.
\<close>

definition copy_go :: "'a list \<Rightarrow> 'a list \<Rightarrow> 'a list" where
  "copy_go dst src = (let n = min (length dst) (length src) in take n src @ drop n dst)"

text \<open>
  Modelled from the spec: \<open>XORBytes(dst, a, b)\<close> is the byte-XOR helper of the
  repository, not among the source files. It xors \<open>a\<close> and \<open>b\<close> bytewise over their
  common length into the front of \<open>dst\<close> and leaves the rest of \<open>dst\<close> as it was.
\<close>

definition XORBytes :: "bytes \<Rightarrow> bytes \<Rightarrow> bytes \<Rightarrow> bytes" where
  "XORBytes dst a b =
     (let n = min (length a) (length b)
      in map2 (XOR) (take n a) (take n b) @ drop n dst)"

text \<open>\<open>bytes.IndexByte\<close>: the index of the first occurrence, or \<open>-1\<close>.\<close>

fun IndexByte :: "bytes \<Rightarrow> byte \<Rightarrow> int" where
  "IndexByte [] c = -1"
| "IndexByte (x # xs) c =
     (if x = c then 0 else (let r = IndexByte xs c in if r < 0 then -1 else r + 1))"

section \<open>Hexadecimal text (encoding/hex)\<close>

definition hextable :: bytes where
  "hextable = ascii ''0123456789abcdef''"

fun EncodeToString :: "bytes \<Rightarrow> bytes" where
  "EncodeToString [] = []"
| "EncodeToString (v # vs) =
     hextable ! unat (drop_bit 4 v) # hextable ! unat (v AND 0x0f) # EncodeToString vs"

definition fromHexChar :: "byte \<Rightarrow> byte option" where
  "fromHexChar c =
     (if 0x30 \<le> c \<and> c \<le> 0x39 then Some (c - 0x30)
      else if 0x61 \<le> c \<and> c \<le> 0x66 then Some (c - 0x61 + 10)
      else if 0x41 \<le> c \<and> c \<le> 0x46 then Some (c - 0x41 + 10)
      else None)"

text \<open>
  \<open>hex.Decode\<close> walks the source in pairs, stops at the first byte that is no hex digit,
  and reports an odd length last. \<open>hex.DecodeString\<close> returns the bytes decoded before
  the error together with the error.
\<close>

fun Decode :: "bytes \<Rightarrow> bytes \<times> error option" where
  "Decode [] = ([], None)"
| "Decode [c] =
     (case fromHexChar c of
        None \<Rightarrow> ([], Some (InvalidByteError c))
      | Some _ \<Rightarrow> ([], Some (ErrorString ''encoding/hex: odd length hex string'')))"
| "Decode (c # d # rest) =
     (case fromHexChar c of
        None \<Rightarrow> ([], Some (InvalidByteError c))
      | Some a \<Rightarrow>
         (case fromHexChar d of
            None \<Rightarrow> ([], Some (InvalidByteError d))
          | Some b \<Rightarrow>
             (case Decode rest of (out, err) \<Rightarrow> ((push_bit 4 a OR b) # out, err))))"

definition DecodeString :: "bytes \<Rightarrow> bytes \<times> error option" where
  "DecodeString s = Decode s"

section \<open>Topic\<close>

definition ErrTopicTooLong :: error where
  "ErrTopicTooLong = ErrorString (''Topic is too long. Max length is '' @ decimal TopicLength)"

text \<open>
  \<open>NewTopic\<close>: the topic starts as 32 zero bytes; the related content, cut to 32 bytes,
  is copied over it when it is not \<open>nil\<close>; the name, cut to 32 bytes, is xored into it.
  Either cut sets the error, and the topic is returned in every case.
\<close>

definition NewTopic :: "bytes \<Rightarrow> bytes option \<Rightarrow> bytes \<times> error option" where
  "NewTopic name relatedContent =
     (let topic0 = replicate TopicLength (0 :: byte);
          (topic1, err1) =
            (case relatedContent of
               None \<Rightarrow> (topic0, None)
             | Some rc \<Rightarrow>
                 (let contentLength = length rc;
                      (contentLength', err) =
                        (if contentLength > TopicLength then (TopicLength, Some ErrTopicTooLong)
                         else (contentLength, None))
                  in (copy_go topic0 (take contentLength' rc), err)));
          nameBytes = name;
          nameLength = length nameBytes;
          (nameLength', err2) =
            (if nameLength > TopicLength then (TopicLength, Some ErrTopicTooLong)
             else (nameLength, err1))
      in (XORBytes topic1 topic1 (take nameLength' nameBytes), err2))"

definition Topic_Hex :: "bytes \<Rightarrow> bytes" where
  "Topic_Hex t = EncodeToString t"

text \<open>
  \<open>Topic.FromHex\<close>: the receiver \<open>t\<close> is passed in and returned; it is overwritten only
  when the text decodes without error to as many bytes as the topic has.
\<close>

definition FromHex :: "bytes \<Rightarrow> bytes \<Rightarrow> bytes \<times> error option" where
  "FromHex t h =
     (case DecodeString h of
        (bs, err) \<Rightarrow>
          if err \<noteq> None \<or> length bs \<noteq> length t
          then (t, Some (NewError ErrInvalidValue ''Cannot decode topic''))
          else (copy_go t bs, None))"

text \<open>\<open>Topic.Name\<close>: xor the related content back out and cut at the first zero byte.\<close>

definition Name :: "bytes \<Rightarrow> bytes option \<Rightarrow> bytes" where
  "Name t relatedContent =
     (let nameBytes0 = t;
          nameBytes =
            (case relatedContent of
               None \<Rightarrow> nameBytes0
             | Some rc \<Rightarrow>
                 (let contentLength = length rc;
                      contentLength' =
                        (if contentLength > TopicLength then TopicLength else contentLength)
                  in XORBytes nameBytes0 t (take contentLength' rc)));
          z0 = IndexByte nameBytes 0;
          z = (if z0 < 0 then int TopicLength else z0)
      in take (nat z) nameBytes)"

text \<open>
  The spec's description of the derivation: each input is cut to 32 bytes and padded to
  32 bytes with zeros, and the two padded buffers are xored. \<open>nil\<close> related content
  counts as empty.
\<close>

definition pad :: "bytes \<Rightarrow> bytes" where
  "pad bs = take TopicLength bs @ replicate (TopicLength - length bs) 0"

definition content_bytes :: "bytes option \<Rightarrow> bytes" where
  "content_bytes rc = (case rc of None \<Rightarrow> [] | Some c \<Rightarrow> c)"

section \<open>Feed\<close>

record Feed =
  Topic :: bytes
  User :: bytes

text \<open>The Go types fix the sizes of the two arrays.\<close>

definition feed_sized :: "Feed \<Rightarrow> bool" where
  "feed_sized f = (length (Topic f) = TopicLength \<and> length (User f) = AddressLength)"

text \<open>\<open>copy(dst[lo:hi], src)\<close> for \<open>lo \<le> hi \<le> len dst\<close>, returning the whole of \<open>dst\<close>.\<close>

definition copy_into :: "'a list \<Rightarrow> nat \<Rightarrow> nat \<Rightarrow> 'a list \<Rightarrow> 'a list" where
  "copy_into dst lo hi src =
     take lo dst @ copy_go (take (hi - lo) (drop lo dst)) src @ drop hi dst"

text \<open>
  \<open>Feed.binaryPut\<close>: the buffer is passed in and returned with the error; a buffer of
  another length is returned as it came.
\<close>

definition binaryPut :: "Feed \<Rightarrow> bytes \<Rightarrow> bytes \<times> error option" where
  "binaryPut f serializedData =
     (if length serializedData \<noteq> feedLength
      then (serializedData,
            Some (NewError ErrInvalidValue
              (''Incorrect slice size to serialize feed. Expected '' @ decimal feedLength
                 @ '', got '' @ decimal (length serializedData))))
      else
        (let cursor0 = 0;
             sd1 = copy_into serializedData cursor0 (cursor0 + TopicLength)
                     (take TopicLength (Topic f));
             cursor1 = cursor0 + TopicLength;
             sd2 = copy_into sd1 cursor1 (cursor1 + AddressLength) (User f)
         in (sd2, None)))"

definition binaryLength :: "Feed \<Rightarrow> nat" where
  "binaryLength f = feedLength"

text \<open>\<open>Feed.binaryGet\<close>: the receiver is passed in and returned with the error.\<close>

definition binaryGet :: "Feed \<Rightarrow> bytes \<Rightarrow> Feed \<times> error option" where
  "binaryGet f serializedData =
     (if length serializedData \<noteq> feedLength
      then (f,
            Some (NewError ErrInvalidValue
              (''Incorrect slice size to read feed. Expected '' @ decimal feedLength
                 @ '', got '' @ decimal (length serializedData))))
      else
        (let cursor0 = 0;
             f1 = f\<lparr>Topic :=
                    copy_go (Topic f) (take TopicLength (drop cursor0 serializedData))\<rparr>;
             cursor1 = cursor0 + TopicLength;
             f2 = f1\<lparr>User :=
                    copy_go (User f1) (take AddressLength (drop cursor1 serializedData))\<rparr>
         in (f2, None)))"

text \<open>
  \<open>Feed.mapKey\<close> reads the first eight bytes of the digest through an unsafe pointer as a
  \<open>uint64\<close>: a load in the byte order of the machine that runs it. The byte order is a
  parameter of the model, and so is the hash function of the pooled hasher, which is
  reset before it is written to. A digest of fewer than eight bytes has no such value.
\<close>

datatype byte_order = LittleEndian | BigEndian

fun le_uint64 :: "bytes \<Rightarrow> 64 word" where
  "le_uint64 [] = 0"
| "le_uint64 (b # bs) = ucast b OR push_bit 8 (le_uint64 bs)"

definition load_uint64 :: "byte_order \<Rightarrow> bytes \<Rightarrow> 64 word" where
  "load_uint64 order bs =
     (case order of
        LittleEndian \<Rightarrow> le_uint64 (take 8 bs)
      | BigEndian \<Rightarrow> le_uint64 (rev (take 8 bs)))"

definition mapKey :: "byte_order \<Rightarrow> (bytes \<Rightarrow> bytes) \<Rightarrow> Feed \<Rightarrow> (64 word) go" where
  "mapKey order hasher f =
     (let serializedData0 = replicate feedLength (0 :: byte);
          serializedData = fst (binaryPut f serializedData0);
          hash = hasher serializedData
      in if length hash < 8 then Panic else Return (load_uint64 order hash))"

section \<open>Address\<close>

text \<open>
  The loop of \<open>Address.Hex\<close> over the positions of the hex text. The index into the
  digest panics when the digest is too short.
\<close>

function Hex_loop :: "bytes \<Rightarrow> bytes \<Rightarrow> nat \<Rightarrow> bytes go" where
  "Hex_loop hash result i =
     (if i < length result then
        (if i div 2 < length hash then
           (let hashByte0 = hash ! (i div 2);
                hashByte = (if i mod 2 = 0 then drop_bit 4 hashByte0 else hashByte0 AND 0xf)
            in Hex_loop hash
                 (if result ! i > 0x39 \<and> hashByte > 7 then result[i := result ! i - 32]
                  else result)
                 (i + 1))
         else Panic)
      else Return result)"
  by pat_completeness auto
termination
  by (relation "measure (\<lambda>(hash, result, i). length result - i)") auto

text \<open>\<open>Address.Hex\<close>, with the Keccak-256 of the sha3 library as a parameter.\<close>

definition Address_Hex :: "(bytes \<Rightarrow> bytes) \<Rightarrow> bytes \<Rightarrow> bytes go" where
  "Address_Hex keccak256 a =
     (let unchecksummed = EncodeToString a;
          hash = keccak256 unchecksummed;
          result = unchecksummed
      in Hex_loop hash result 0)"

text \<open>One turn of the loop on the character at position \<open>i\<close>.\<close>

definition step_char :: "bytes \<Rightarrow> byte \<Rightarrow> nat \<Rightarrow> byte" where
  "step_char hash c i =
     (if c > 0x39 \<and>
         (if i mod 2 = 0 then drop_bit 4 (hash ! (i div 2)) else hash ! (i div 2) AND 0xf) > 7
      then c - 32 else c)"

text \<open>
  The spec's description of the checksummed text: position by position, a letter a to f
  is uppercased when the selected nibble of the digest is at least 8.
\<close>

definition selected_nibble :: "bytes \<Rightarrow> nat \<Rightarrow> byte" where
  "selected_nibble hash i =
     (if even i then drop_bit 4 (hash ! (i div 2)) else hash ! (i div 2) AND 0x0f)"

definition is_hex_letter :: "byte \<Rightarrow> bool" where
  "is_hex_letter c = (0x61 \<le> c \<and> c \<le> 0x66)"

definition is_hex_digit :: "byte \<Rightarrow> bool" where
  "is_hex_digit c = (0x30 \<le> c \<and> c \<le> 0x39)"

definition uppercase :: "byte \<Rightarrow> byte" where
  "uppercase c = c - 32"

definition checksum_char :: "bytes \<Rightarrow> bytes \<Rightarrow> nat \<Rightarrow> byte" where
  "checksum_char hash u i =
     (if is_hex_letter (u ! i) \<and> 8 \<le> selected_nibble hash i then uppercase (u ! i)
      else u ! i)"

definition checksum_text :: "(bytes \<Rightarrow> bytes) \<Rightarrow> bytes \<Rightarrow> bytes" where
  "checksum_text keccak256 a =
     (let u = EncodeToString a; hash = keccak256 u
      in map (checksum_char hash u) [0..<length u])"



section \<open>Signer and recovery\<close>

text \<open>
  The curve arithmetic is the library's: \<open>btcec.SignCompact\<close> and
  \<open>btcec.RecoverCompact\<close> on the curve \<open>S256\<close> are parameters, the first taking the
  private key and the digest, the second the compact signature and the digest. Both
  return an error or a value; the key types are declared below. The two \<open>fmt.Println\<close> calls of \<open>sign\<close> only print.

  \<open>GenericSigner.sign\<close> moves the first byte of the compact signature to the end:
  \<open>copy(signature, signature[1:])\<close> shifts the rest down by one, then index 64 is set.
\<close>

definition sign ::
  "('k \<Rightarrow> bytes \<Rightarrow> error + bytes) \<Rightarrow> 'k \<Rightarrow> bytes \<Rightarrow> bool \<Rightarrow> (error + bytes) go" where
  "sign SignCompact PrivKey sighash isCompressedKey =
     (case SignCompact PrivKey sighash of
        Inl err \<Rightarrow> Return (Inl err)
      | Inr signature \<Rightarrow>
          if length signature = 0 then Panic
          else
            (let v = signature ! 0;
                 signature1 = copy_go signature (drop 1 signature)
             in if 64 < length signature1 then Return (Inr (signature1[64 := v]))
                else Panic))"

text \<open>
  \<open>GenericSigner.Sign\<close>: the named result \<open>signature\<close> is the zero array until the
  signature is copied into it.
\<close>

definition Sign ::
  "('k \<Rightarrow> bytes \<Rightarrow> error + bytes) \<Rightarrow> 'k \<Rightarrow> bytes \<Rightarrow> (bytes \<times> error option) go" where
  "Sign SignCompact PrivKey data =
     (let signature0 = replicate signatureLength (0 :: byte)
      in case sign SignCompact PrivKey data True of
           Panic \<Rightarrow> Panic
         | Return (Inl err) \<Rightarrow> Return (signature0, Some err)
         | Return (Inr sig) \<Rightarrow> Return (copy_go signature0 sig, None))"

text \<open>
  \<open>Recover\<close>: a signature of another length is refused before anything else happens;
  otherwise the last byte is moved to the front and the library recovers the key.
\<close>

definition Recover ::
  "(bytes \<Rightarrow> bytes \<Rightarrow> error + 'p) \<Rightarrow> bytes \<Rightarrow> bytes \<Rightarrow> error + 'p" where
  "Recover RecoverCompact signature data =
     (if length signature \<noteq> 65 then Inl (ErrorString ''invalid signature length'')
      else
        (let btcsig0 = replicate 65 (0 :: byte);
             btcsig1 = btcsig0[0 := signature ! 64];
             btcsig2 = take 1 btcsig1 @ copy_go (drop 1 btcsig1) signature
         in RecoverCompact btcsig2 data))"

text \<open>
  A public key with its two coordinates, either of which may be \<open>nil\<close>.
  \<open>elliptic.Marshal\<close> and \<open>Keccak256\<close> are parameters; \<open>common.BytesToAddress\<close>
  keeps the last 20 bytes of its argument, or pads a shorter one with zeros on the left.
\<close>

record PublicKey =
  X :: "int option"
  Y :: "int option"

text \<open>A private key embeds its public key and adds the secret number.\<close>

record PrivateKey = PublicKey +
  D :: int

definition FromECDSAPub :: "(int \<Rightarrow> int \<Rightarrow> bytes) \<Rightarrow> PublicKey \<Rightarrow> bytes" where
  "FromECDSAPub Marshal pub =
     (case (X pub, Y pub) of
        (Some x, Some y) \<Rightarrow> Marshal x y
      | _ \<Rightarrow> [])"

definition BytesToAddress :: "bytes \<Rightarrow> bytes" where
  "BytesToAddress b =
     (let b' = (if length b > AddressLength then drop (length b - AddressLength) b else b)
      in replicate (AddressLength - length b') 0 @ b')"

definition PubkeyToAddress ::
  "(int \<Rightarrow> int \<Rightarrow> bytes) \<Rightarrow> (bytes \<Rightarrow> bytes) \<Rightarrow> PublicKey \<Rightarrow> bytes go" where
  "PubkeyToAddress Marshal Keccak256 p =
     (let pubBytes = FromECDSAPub Marshal p
      in if length pubBytes < 1 then Panic
         else
           (let h = Keccak256 (drop 1 pubBytes)
            in if length h < 12 then Panic else Return (BytesToAddress (drop 12 h))))"

text \<open>
  Modelled from the spec: \<open>getUserAddr\<close> recovers the key and derives its address with
  \<open>NewEthereumAddress\<close>, which is not among the source files; the derivation of
  \<open>PubkeyToAddress\<close> (hash the key bytes without their prefix, keep the last 20 bytes)
  stands for it.
\<close>

definition getUserAddr ::
  "(bytes \<Rightarrow> bytes \<Rightarrow> error + PublicKey) \<Rightarrow> (int \<Rightarrow> int \<Rightarrow> bytes) \<Rightarrow> (bytes \<Rightarrow> bytes) \<Rightarrow>
   bytes \<Rightarrow> bytes \<Rightarrow> (bytes \<times> error option) go" where
  "getUserAddr RecoverCompact Marshal Keccak256 digest signature =
     (case Recover RecoverCompact signature digest of
        Inl err \<Rightarrow> Return (replicate AddressLength 0, Some err)
      | Inr pub \<Rightarrow>
          (case PubkeyToAddress Marshal Keccak256 pub of
             Panic \<Rightarrow> Panic
           | Return a \<Rightarrow> Return (copy_go (replicate AddressLength 0) a, None)))"

section \<open>Lookup\<close>

text \<open>
  Modelled from the spec: the update record \<open>Request\<close> is declared outside the source
  files; it carries a 64-bit time, a payload and a signature.
\<close>

record Request =
  Time :: "64 word"
  Payload :: bytes
  Signature :: bytes

text \<open>
  What the callback and the search hand back as \<open>interface{}\<close>: \<open>nil\<close>, a pointer to a
  \<open>Request\<close>, or a value of another type.
\<close>

datatype iface = NilValue | RequestPtr Request | OtherValue



section \<open>Stand-ins for the external parts\<close>

text \<open>
  Small concrete instances of the parameters, to run the functions above on concrete
  inputs. The stand-in signature carries the digest and one byte of the secret number;
  recovery checks the digest and rebuilds the key from that byte. The stand-ins for
  \<open>elliptic.Marshal\<close> and the hash only rearrange bytes.
\<close>

definition toy_SignCompact :: "PrivateKey \<Rightarrow> bytes \<Rightarrow> error + bytes" where
  "toy_SignCompact k d = Inr (27 # take 32 d @ replicate 32 (word_of_int (D k)))"

definition toy_RecoverCompact :: "bytes \<Rightarrow> bytes \<Rightarrow> error + PublicKey" where
  "toy_RecoverCompact cs d =
     (if length cs = 65 \<and> cs ! 0 = 27 \<and> take 32 (drop 1 cs) = d
      then Inr \<lparr>X = Some (uint (cs ! 33)), Y = Some (uint (cs ! 33) + 1)\<rparr>
      else Inl (ErrorString ''invalid compact signature''))"

definition toy_Marshal :: "int \<Rightarrow> int \<Rightarrow> bytes" where
  "toy_Marshal x y = [4, word_of_int x, word_of_int y]"

definition toy_Keccak256 :: "bytes \<Rightarrow> bytes" where
  "toy_Keccak256 bs = replicate (32 - length bs) 0 @ take 32 bs"





section \<open>Well-formed hex text\<close>

text \<open>Valid hex text: an even number of characters, each of them a hex digit.\<close>

definition is_hex_char :: "byte \<Rightarrow> bool" where
  "is_hex_char c =
     ((0x30 \<le> c \<and> c \<le> 0x39) \<or> (0x61 \<le> c \<and> c \<le> 0x66) \<or> (0x41 \<le> c \<and> c \<le> 0x46))"

definition valid_hex :: "bytes \<Rightarrow> bool" where
  "valid_hex h = (even (length h) \<and> list_all is_hex_char h)"

section \<open>Constants and evaluation\<close>

declare decimal.simps [simp del]

lemma decimal_digit: "n < 10 \<Longrightarrow> decimal n = [digit_char n]"
  by (subst decimal.simps) simp

lemma decimal_52: "decimal 52 = ''52''"
  by (subst decimal.simps) (simp add: decimal_digit digit_char_def)

lemma TopicLength_32: "TopicLength = 32"
  by (simp add: TopicLength_def ChunkAddressLength_def)

lemma feedLength_52: "feedLength = 52"
  by (simp add: feedLength_def TopicLength_32 AddressLength_def)

section \<open>Topic: derivation and name recovery\<close>

lemma length_pad: "length (pad bs) = TopicLength"
  by (simp add: pad_def)

lemma map2_xor_zero_right:
  "map2 (XOR) xs (replicate (length xs) (0::byte)) = xs"
  by (induction xs) simp_all

lemma map2_xor_cancel:
  "length xs = length ys \<Longrightarrow> map2 (XOR) (map2 (XOR) ys xs) ys = (xs :: bytes)"
proof (induction xs ys rule: list_induct2)
  case Nil
  show ?case by simp
next
  case (Cons x xs y ys)
  have "(y XOR x) XOR y = x"
    by (simp add: xor.commute xor.left_commute)
  with Cons show ?case by simp
qed

lemma XORBytes_front:
  assumes t: "length t = TopicLength" and b: "length b \<le> TopicLength"
  shows "XORBytes d t b = map2 (XOR) (take (length b) t) b @ drop (length b) d"
  using t b by (simp add: XORBytes_def Let_def min_def)

lemma map2_xor_pad:
  assumes t: "length t = TopicLength" and b: "length b \<le> TopicLength"
  shows "map2 (XOR) t (pad b) = map2 (XOR) (take (length b) t) b @ drop (length b) t"
proof -
  have "map2 (XOR) t (pad b)
      = map2 (XOR) (take (length b) t @ drop (length b) t) (b @ replicate (TopicLength - length b) 0)"
    using b by (simp add: pad_def)
  also have "\<dots> = map2 (XOR) (take (length b) t) b
        @ map2 (XOR) (drop (length b) t) (replicate (TopicLength - length b) 0)"
  proof -
    have "length (take (length b) t) = length b" using t b by simp
    then show ?thesis unfolding map_append [symmetric] by (subst zip_append) simp_all
  qed
  also have "map2 (XOR) (drop (length b) t) (replicate (TopicLength - length b) 0) = drop (length b) t"
    using map2_xor_zero_right [of "drop (length b) t"] t by simp
  finally show ?thesis .
qed

lemma XORBytes_self_pad:
  "length t = TopicLength \<Longrightarrow> length b \<le> TopicLength \<Longrightarrow> XORBytes t t b = map2 (XOR) t (pad b)"
  by (simp add: XORBytes_front map2_xor_pad)

lemma copy_zero_pad:
  "length c \<le> TopicLength \<Longrightarrow> copy_go (replicate TopicLength 0) c = pad c"
  by (simp add: copy_go_def pad_def Let_def min_def)

lemma pad_take: "pad (take TopicLength bs) = pad bs"
  by (simp add: pad_def min_def)

lemma pad_Nil: "pad [] = replicate TopicLength 0"
  by (simp add: pad_def)

text \<open>The topic is the xor of the two padded inputs, as the spec describes it.\<close>

lemma NewTopic_fst:
  "fst (NewTopic name rc) = map2 (XOR) (pad (content_bytes rc)) (pad name)"
proof -
  have n1: "TopicLength < length name \<Longrightarrow>
      XORBytes (pad c) (pad c) (take TopicLength name) = map2 (XOR) (pad c) (pad name)" for c
    using XORBytes_self_pad [of "pad c" "take TopicLength name"]
    by (simp add: length_pad pad_take)
  have n2: "\<not> TopicLength < length name \<Longrightarrow>
      XORBytes (pad c) (pad c) name = map2 (XOR) (pad c) (pad name)" for c
    using XORBytes_self_pad [of "pad c" name] by (simp add: length_pad)
  show ?thesis
  proof (cases rc)
    case None
    then show ?thesis
      using n1 [of "[]"] n2 [of "[]"]
      by (simp add: NewTopic_def Let_def content_bytes_def pad_Nil split: prod.splits)
  next
    case (Some c)
    have c1: "copy_go (replicate TopicLength 0) (take TopicLength c) = pad c"
      using copy_zero_pad [of "take TopicLength c"] by (simp add: pad_take)
    have c2: "\<not> TopicLength < length c \<Longrightarrow> copy_go (replicate TopicLength 0) c = pad c"
      using copy_zero_pad [of c] by simp
    show ?thesis
      using Some n1 [of c] n2 [of c] c1 c2
      by (simp add: NewTopic_def Let_def content_bytes_def split: prod.splits)
  qed
qed

lemma NewTopic_snd:
  "snd (NewTopic name rc) =
     (if TopicLength < length name \<or> TopicLength < length (content_bytes rc)
      then Some ErrTopicTooLong else None)"
  by (cases rc) (simp_all add: NewTopic_def Let_def content_bytes_def split: prod.splits)

lemma IndexByte_first:
  "c \<notin> set xs \<Longrightarrow> IndexByte (xs @ c # ys) c = int (length xs)"
  by (induction xs) (auto simp add: Let_def)

lemma Name_eq:
  assumes "length t = TopicLength"
  shows "Name t rc =
     (let nameBytes = map2 (XOR) t (pad (content_bytes rc));
          z0 = IndexByte nameBytes 0
      in take (nat (if z0 < 0 then int TopicLength else z0)) nameBytes)"
proof (cases rc)
  case None
  have "map2 (XOR) t (pad []) = t"
    using map2_xor_zero_right [of t] assms by (simp add: pad_Nil)
  with None show ?thesis by (simp add: Name_def Let_def content_bytes_def)
next
  case (Some c)
  have "XORBytes t t (take TopicLength c) = map2 (XOR) t (pad c)"
    using XORBytes_self_pad [of t "take TopicLength c"] assms by (simp add: pad_take)
  moreover have "(if TopicLength < length c then TopicLength else length c) = min (length c) TopicLength"
    by simp
  moreover have "take (min (length c) TopicLength) c = take TopicLength c"
    by (simp add: min_def)
  ultimately show ?thesis
    using Some by (simp add: Name_def Let_def content_bytes_def del: take_all_iff)
qed

text \<open>
  C2. For every name without a zero byte and shorter than 32 bytes, and every related
  content of at most 32 bytes, \<open>nil\<close> included, \<open>Name\<close> applied to the topic of
  \<open>NewTopic name relatedContent\<close> with the same related content returns the name.
\<close>

theorem Name_NewTopic:
  assumes "0 \<notin> set name" and "length name < TopicLength"
    and "length (content_bytes rc) \<le> TopicLength"
  shows "Name (fst (NewTopic name rc)) rc = name"
proof -
  let ?t = "fst (NewTopic name rc)"
  let ?p = "pad (content_bytes rc)"
  have len: "length ?t = TopicLength"
    by (simp add: NewTopic_fst length_pad)
  have undo: "map2 (XOR) ?t ?p = pad name"
    unfolding NewTopic_fst using map2_xor_cancel [of "pad name" ?p] by (simp add: length_pad)
  obtain k where k: "TopicLength - length name = Suc k"
    using assms(2) by (metis Suc_diff_Suc)
  have padn: "pad name = name @ 0 # replicate k 0"
    using assms(2) k by (simp add: pad_def)
  have idx: "IndexByte (pad name) 0 = int (length name)"
    unfolding padn using assms(1) by (rule IndexByte_first)
  show ?thesis
    using Name_eq [OF len, of rc] undo idx padn by (simp add: Let_def)
qed

theorem Name_NewTopic_witness:
  "Name (fst (NewTopic (ascii ''test-topic'') (Some [0xab, 0xcd, 0xef, 0x01])))
        (Some [0xab, 0xcd, 0xef, 0x01]) = ascii ''test-topic''
   \<and> Name (fst (NewTopic (ascii ''test-topic'') None)) None = ascii ''test-topic''"
proof -
  have z: "0 \<notin> set (ascii ''test-topic'')" by (simp add: ascii_def)
  have l: "length (ascii ''test-topic'') < TopicLength" by (simp add: ascii_def TopicLength_32)
  have c: "length (content_bytes (Some [0xab, 0xcd, 0xef, 0x01])) \<le> TopicLength"
    by (simp add: content_bytes_def TopicLength_32)
  have n: "length (content_bytes None) \<le> TopicLength"
    by (simp add: content_bytes_def)
  show ?thesis
    using Name_NewTopic [OF z l c] Name_NewTopic [OF z l n] by simp
qed

lemma decimal_32: "decimal 32 = ''32''"
  by (subst decimal.simps) (simp add: decimal_digit digit_char_def)

text \<open>
  C7. \<open>NewTopic\<close> always returns a topic of 32 bytes: the xor of the related content and
  of the name, each cut to its first 32 bytes and padded with zeros to 32 bytes (\<open>nil\<close>
  related content counting as empty). That is the topic of the inputs cut to 32 bytes,
  for which there is no error. Beside the topic it returns \<open>ErrTopicTooLong\<close> exactly
  when the name or the related content is longer than 32 bytes, and no error otherwise.
\<close>

theorem NewTopic_truncates:
  "fst (NewTopic name rc) =
      map2 (XOR)
        (take 32 (content_bytes rc) @ replicate (32 - length (content_bytes rc)) 0)
        (take 32 name @ replicate (32 - length name) 0)
   \<and> length (fst (NewTopic name rc)) = 32
   \<and> fst (NewTopic name rc) = fst (NewTopic (take 32 name) (map_option (take 32) rc))
   \<and> snd (NewTopic (take 32 name) (map_option (take 32) rc)) = None
   \<and> snd (NewTopic name rc) =
       (if 32 < length name \<or> 32 < length (content_bytes rc) then Some ErrTopicTooLong
        else None)
   \<and> ErrTopicTooLong = ErrorString ''Topic is too long. Max length is 32''"
proof -
  have "fst (NewTopic name rc) =
      map2 (XOR)
        (take 32 (content_bytes rc) @ replicate (32 - length (content_bytes rc)) 0)
        (take 32 name @ replicate (32 - length name) 0)"
    by (simp add: NewTopic_fst pad_def TopicLength_32)
  moreover have "content_bytes (map_option (take TopicLength) rc) = take TopicLength (content_bytes rc)"
    by (cases rc) (simp_all add: content_bytes_def)
  then have "fst (NewTopic name rc)
      = fst (NewTopic (take TopicLength name) (map_option (take TopicLength) rc))"
    by (simp add: NewTopic_fst pad_take)
  moreover have "length (fst (NewTopic name rc)) = TopicLength"
    by (simp add: NewTopic_fst length_pad)
  moreover have "snd (NewTopic (take TopicLength name) (map_option (take TopicLength) rc)) = None"
    by (cases rc) (simp_all add: NewTopic_snd content_bytes_def)
  moreover have "ErrTopicTooLong = ErrorString ''Topic is too long. Max length is 32''"
    by (simp add: ErrTopicTooLong_def TopicLength_32 decimal_32)
  ultimately show ?thesis
    by (simp add: NewTopic_snd TopicLength_32)
qed

theorem NewTopic_truncates_witness:
  "NewTopic (replicate 40 0x61) (Some (replicate 40 0x03))
     = (replicate 32 0x62, Some (ErrorString ''Topic is too long. Max length is 32''))
   \<and> NewTopic (replicate 40 0x61) (Some [0x01, 0x02, 0x03])
     = ([0x60, 0x63, 0x62] @ replicate 29 0x61,
        Some (ErrorString ''Topic is too long. Max length is 32''))
   \<and> NewTopic [0x61, 0x62] (Some [0x01, 0x02, 0x03]) = ([0x60, 0x60, 0x03] @ replicate 29 0, None)"
proof -
  let ?long = "replicate 40 (0x61 :: byte)"
  let ?rel = "Some (replicate 40 (0x03 :: byte))"
  let ?short = "Some [0x01, 0x02, 0x03 :: byte]"
  have x1: "map2 (XOR)
        (take 32 (content_bytes ?rel) @ replicate (32 - length (content_bytes ?rel)) 0)
        (take 32 ?long @ replicate (32 - length ?long) 0) = replicate 32 0x62"
    by code_simp
  have x2: "map2 (XOR)
        (take 32 (content_bytes ?short) @ replicate (32 - length (content_bytes ?short)) 0)
        (take 32 ?long @ replicate (32 - length ?long) 0) = [0x60, 0x63, 0x62] @ replicate 29 0x61"
    by code_simp
  have x3: "map2 (XOR)
        (take 32 (content_bytes ?short) @ replicate (32 - length (content_bytes ?short)) 0)
        (take 32 [0x61, 0x62] @ replicate (32 - length [0x61, 0x62 :: byte]) 0)
      = [0x60, 0x60, 0x03] @ replicate 29 0"
    by code_simp
  have l: "length (content_bytes ?rel) = 40" "length (content_bytes ?short) = 3"
    by (simp_all add: content_bytes_def)
  have 1: "NewTopic ?long ?rel
     = (replicate 32 0x62, Some (ErrorString ''Topic is too long. Max length is 32''))"
    using NewTopic_truncates [of ?long ?rel] x1 l by (simp add: prod_eq_iff)
  have 2: "NewTopic ?long ?short
     = ([0x60, 0x63, 0x62] @ replicate 29 0x61,
        Some (ErrorString ''Topic is too long. Max length is 32''))"
    using NewTopic_truncates [of ?long ?short] x2 l by (simp add: prod_eq_iff)
  have 3: "NewTopic [0x61, 0x62] ?short = ([0x60, 0x60, 0x03] @ replicate 29 0, None)"
    using NewTopic_truncates [of "[0x61, 0x62]" ?short] x3 l by (simp add: prod_eq_iff)
  show ?thesis using 1 2 3 by blast
qed


text \<open>
  The vector of the repository's own test of topics: the name ``test-topic'' with the
  related content \<open>abcdef0123456789\<close> repeated four times.
\<close>

lemma TestTopic:
  "Topic_Hex (fst (NewTopic (ascii ''test-topic'')
      (Some (fst (DecodeString
         (ascii ''abcdef0123456789abcdef0123456789abcdef0123456789abcdef0123456789''))))))
   = ascii ''dfa89c750e3108f9c2aeef0123456789abcdef0123456789abcdef0123456789''"
  by code_simp

section \<open>Topic: parsing hex text\<close>

lemma fromHexChar_None_iff: "fromHexChar c = None \<longleftrightarrow> \<not> is_hex_char c"
  by (auto simp add: fromHexChar_def is_hex_char_def)

text \<open>\<open>hex.Decode\<close> reports no error exactly on valid hex text.\<close>

lemma Decode_no_error_iff: "snd (Decode h) = None \<longleftrightarrow> valid_hex h"
proof (induction h rule: Decode.induct)
  case 1
  show ?case by (simp add: valid_hex_def)
next
  case (2 c)
  show ?case by (simp add: valid_hex_def split: option.splits)
next
  case (3 c d rest)
  show ?case
  proof (cases "fromHexChar c")
    case None
    then show ?thesis using fromHexChar_None_iff [of c] by (simp add: valid_hex_def)
  next
    case (Some a)
    note a = this
    show ?thesis
    proof (cases "fromHexChar d")
      case None
      then show ?thesis using a fromHexChar_None_iff [of d] by (simp add: valid_hex_def)
    next
      case (Some b)
      have "is_hex_char c" "is_hex_char d"
        using a Some fromHexChar_None_iff [of c] fromHexChar_None_iff [of d] by auto
      then show ?thesis
        using a Some "3.IH" [OF a Some] by (cases "Decode rest") (simp add: valid_hex_def)
    qed
  qed
qed


text \<open>
  C10. \<open>Topic.FromHex\<close> is atomic on error: when the text is not valid hex or decodes to
  a number of bytes other than 32, it returns the \<open>ErrInvalidValue\<close> error and the
  topic keeps its 32 bytes; the topic is overwritten, with the decoded bytes, only when
  both checks pass.
\<close>

theorem FromHex_atomic:
  assumes "length t = 32"
  shows "(\<not> valid_hex h \<or> length (fst (DecodeString h)) \<noteq> 32 \<longrightarrow>
            FromHex t h = (t, Some (FeedError ErrInvalidValue ''Cannot decode topic'')))
       \<and> (valid_hex h \<and> length (fst (DecodeString h)) = 32 \<longrightarrow>
            FromHex t h = (fst (DecodeString h), None))"
proof -
  obtain bs err where d: "DecodeString h = (bs, err)" by (cases "DecodeString h")
  have e: "err = None \<longleftrightarrow> valid_hex h"
    using Decode_no_error_iff [of h] d by (simp add: DecodeString_def)
  show ?thesis
    using assms d e by (auto simp add: FromHex_def NewError_def copy_go_def)
qed

theorem FromHex_atomic_witness:
  "FromHex (replicate 32 7) (ascii ''zz'')
     = (replicate 32 7, Some (FeedError ErrInvalidValue ''Cannot decode topic''))
   \<and> FromHex (replicate 32 7) (ascii ''abcd'')
     = (replicate 32 7, Some (FeedError ErrInvalidValue ''Cannot decode topic''))
   \<and> FromHex (replicate 32 7) (replicate 64 0x31) = (replicate 32 0x11, None)"
proof -
  have l: "length (replicate 32 (7 :: byte)) = 32" by simp
  have a: "\<not> valid_hex (ascii ''zz'')"
    by code_simp
  have b: "length (fst (DecodeString (ascii ''abcd''))) \<noteq> 32"
    by code_simp
  have c: "DecodeString (replicate 64 0x31) = (replicate 32 0x11, None)"
    by code_simp
  have v: "valid_hex (replicate 64 0x31)"
    using Decode_no_error_iff [of "replicate 64 0x31"] c by (simp add: DecodeString_def)
  have t1: "FromHex (replicate 32 7) (ascii ''zz'')
     = (replicate 32 7, Some (FeedError ErrInvalidValue ''Cannot decode topic''))"
    using FromHex_atomic [OF l, of "ascii ''zz''"] a by blast
  have t2: "FromHex (replicate 32 7) (ascii ''abcd'')
     = (replicate 32 7, Some (FeedError ErrInvalidValue ''Cannot decode topic''))"
    using FromHex_atomic [OF l, of "ascii ''abcd''"] b by blast
  have t3: "FromHex (replicate 32 7) (replicate 64 0x31) = (replicate 32 0x11, None)"
    using FromHex_atomic [OF l, of "replicate 64 0x31"] v c by simp
  show ?thesis using t1 t2 t3 by blast
qed

section \<open>Feed: the 52-byte layout\<close>

lemma binaryPut_ok:
  assumes "feed_sized f" "length buf = feedLength"
  shows "binaryPut f buf = (Topic f @ User f, None)"
  using assms
  by (simp add: binaryPut_def feed_sized_def feedLength_def copy_into_def copy_go_def Let_def)

lemma binaryGet_ok:
  assumes "feed_sized g" "length t = TopicLength" "length u = AddressLength"
  shows "binaryGet g (t @ u) = (g\<lparr>Topic := t, User := u\<rparr>, None)"
  using assms
  by (simp add: binaryGet_def feed_sized_def feedLength_def copy_go_def Let_def)

text \<open>
  C3. For a buffer of 52 bytes, \<open>binaryPut\<close> fills it with \<open>Topic \<parallel> User\<close> and
  \<open>binaryGet\<close> on the result rebuilds exactly the feed, whatever the receiver held. For a
  buffer of any other length both fail with an \<open>ErrInvalidValue\<close> error whose message
  names 52 and the actual length, and the buffer and the receiver stay as they were.
\<close>

theorem binaryPut_binaryGet:
  assumes "feed_sized f" "feed_sized g"
  shows "(length buf = 52 \<longrightarrow>
            binaryPut f buf = (Topic f @ User f, None) \<and>
            length (Topic f @ User f) = 52 \<and>
            binaryGet g (fst (binaryPut f buf)) = (f, None))
       \<and> (length buf \<noteq> 52 \<longrightarrow>
            binaryPut f buf =
              (buf, Some (FeedError ErrInvalidValue
                 (''Incorrect slice size to serialize feed. Expected 52, got ''
                    @ decimal (length buf))))
          \<and> binaryGet g buf =
              (g, Some (FeedError ErrInvalidValue
                 (''Incorrect slice size to read feed. Expected 52, got ''
                    @ decimal (length buf)))))"
proof (intro conjI impI)
  assume "length buf = 52"
  then have len: "length buf = feedLength" by (simp add: feedLength_52)
  show put: "binaryPut f buf = (Topic f @ User f, None)"
    using assms(1) len by (rule binaryPut_ok)
  show "length (Topic f @ User f) = 52"
    using assms(1) by (simp add: feed_sized_def feedLength_52 [symmetric] feedLength_def)
  have "binaryGet g (Topic f @ User f) = (g\<lparr>Topic := Topic f, User := User f\<rparr>, None)"
    using assms by (intro binaryGet_ok) (simp_all add: feed_sized_def)
  then show "binaryGet g (fst (binaryPut f buf)) = (f, None)"
    by (simp add: put)
next
  assume "length buf \<noteq> 52"
  then show "binaryPut f buf =
              (buf, Some (FeedError ErrInvalidValue
                 (''Incorrect slice size to serialize feed. Expected 52, got ''
                    @ decimal (length buf))))"
    by (simp add: binaryPut_def NewError_def feedLength_52 decimal_52)
next
  assume "length buf \<noteq> 52"
  then show "binaryGet g buf =
              (g, Some (FeedError ErrInvalidValue
                 (''Incorrect slice size to read feed. Expected 52, got ''
                    @ decimal (length buf))))"
    by (simp add: binaryGet_def NewError_def feedLength_52 decimal_52)
qed

theorem binaryPut_binaryGet_witness:
  "binaryGet \<lparr>Topic = replicate 32 0, User = replicate 20 0\<rparr>
      (fst (binaryPut \<lparr>Topic = replicate 32 1, User = replicate 20 2\<rparr> (replicate 52 9)))
     = (\<lparr>Topic = replicate 32 1, User = replicate 20 2\<rparr>, None)
   \<and> binaryPut \<lparr>Topic = replicate 32 1, User = replicate 20 2\<rparr> [1, 2, 3]
     = ([1, 2, 3], Some (FeedError ErrInvalidValue
          ''Incorrect slice size to serialize feed. Expected 52, got 3''))
   \<and> binaryGet \<lparr>Topic = replicate 32 0, User = replicate 20 0\<rparr> [1, 2, 3]
     = (\<lparr>Topic = replicate 32 0, User = replicate 20 0\<rparr>, Some (FeedError ErrInvalidValue
          ''Incorrect slice size to read feed. Expected 52, got 3''))"
proof -
  let ?f = "\<lparr>Topic = replicate 32 1, User = replicate 20 2\<rparr>"
  let ?g = "\<lparr>Topic = replicate 32 0, User = replicate 20 0\<rparr>"
  have f: "feed_sized ?f"
    by (simp add: feed_sized_def TopicLength_32 AddressLength_def)
  have g: "feed_sized ?g"
    by (simp add: feed_sized_def TopicLength_32 AddressLength_def)
  have l1: "length (replicate 52 (9 :: byte)) = 52" by simp
  have l2: "length [1, 2, 3 :: byte] \<noteq> 52" by simp
  have d: "decimal (length [1, 2, 3 :: byte]) = ''3''"
    by (simp add: decimal_digit digit_char_def)
  note ok = binaryPut_binaryGet [OF f g, of "replicate 52 9", THEN conjunct1, rule_format, OF l1]
  note bad = binaryPut_binaryGet [OF f g, of "[1, 2, 3]", THEN conjunct2, rule_format, OF l2]
  have a1: "binaryGet ?g (fst (binaryPut ?f (replicate 52 9))) = (?f, None)"
    using ok by blast
  have a2: "binaryPut ?f [1, 2, 3]
     = ([1, 2, 3], Some (FeedError ErrInvalidValue
          ''Incorrect slice size to serialize feed. Expected 52, got 3''))
   \<and> binaryGet ?g [1, 2, 3]
     = (?g, Some (FeedError ErrInvalidValue
          ''Incorrect slice size to read feed. Expected 52, got 3''))"
    using bad unfolding d by simp
  show ?thesis
    using a1 a2 by blast
qed

section \<open>Feed: the cache key\<close>

lemma mapKey_eq:
  assumes "feed_sized f" "8 \<le> length (hasher (Topic f @ User f))"
  shows "mapKey order hasher f = Return (load_uint64 order (hasher (Topic f @ User f)))"
  using assms binaryPut_ok [OF assms(1), of "replicate feedLength 0"]
  by (simp add: mapKey_def Let_def)

text \<open>
  C8, as the code has it. \<open>mapKey\<close> hashes the 52 bytes \<open>Topic \<parallel> User\<close> and returns the
  first eight bytes of the digest read as a \<open>uint64\<close> in the byte order of the machine;
  for one byte order the value depends on \<open>Topic\<close> and \<open>User\<close> alone, so equal pairs
  give equal keys on every call.
\<close>

theorem mapKey_first_eight_bytes:
  assumes "feed_sized f" and "8 \<le> length (hasher (Topic f @ User f))"
  shows "length (Topic f @ User f) = 52
       \<and> mapKey order hasher f = Return (load_uint64 order (take 8 (hasher (Topic f @ User f))))
       \<and> (\<forall>g. Topic g = Topic f \<and> User g = User f \<longrightarrow>
             mapKey order hasher g = mapKey order hasher f)"
proof -
  have "length (Topic f @ User f) = 52"
    using assms(1) by (simp add: feed_sized_def feedLength_52 [symmetric] feedLength_def)
  moreover have "load_uint64 order (take 8 bs) = load_uint64 order bs" for bs
    by (cases order) (simp_all add: load_uint64_def)
  moreover have "mapKey order hasher g = mapKey order hasher f"
    if "Topic g = Topic f \<and> User g = User f" for g
    using that by (simp add: mapKey_def binaryPut_def)
  ultimately show ?thesis
    using mapKey_eq [of f hasher order] assms by simp
qed

theorem mapKey_first_eight_bytes_witness:
  "mapKey LittleEndian (take 32) \<lparr>Topic = 1 # replicate 31 0, User = replicate 20 0\<rparr>
     = Return (load_uint64 LittleEndian [1, 0, 0, 0, 0, 0, 0, 0])"
proof -
  let ?f = "\<lparr>Topic = 1 # replicate 31 0, User = replicate 20 (0 :: byte)\<rparr>"
  have f: "feed_sized ?f"
    by (simp add: feed_sized_def TopicLength_32 AddressLength_def)
  have h: "8 \<le> length (take 32 (Topic ?f @ User ?f))" by simp
  have "take 8 (take 32 (Topic ?f @ User ?f)) = [1, 0, 0, 0, 0, 0, 0, 0]"
    by code_simp
  then show ?thesis
    using mapKey_first_eight_bytes [of ?f "take 32" LittleEndian] f h by simp
qed

text \<open>
  The same feed and the same hash give different keys on machines of different byte
  order: the key is not stable across machines.
\<close>

theorem mapKey_byte_order_counterexample:
  "mapKey LittleEndian (take 32) \<lparr>Topic = 1 # replicate 31 0, User = replicate 20 0\<rparr>
     = Return 1
   \<and> mapKey BigEndian (take 32) \<lparr>Topic = 1 # replicate 31 0, User = replicate 20 0\<rparr>
     = Return 0x0100000000000000"
  by code_simp

section \<open>Address: checksummed hex text\<close>

declare Hex_loop.simps [simp del]

lemma hextable_chars:
  "list_all (\<lambda>n. is_hex_digit (hextable ! n) \<or> is_hex_letter (hextable ! n)) [0..<16]"
  by code_simp

lemma hextable_nth:
  assumes "n < 16"
  shows "is_hex_digit (hextable ! n) \<or> is_hex_letter (hextable ! n)"
proof -
  have "n \<in> set [0..<16]" using assms by simp
  with hextable_chars show ?thesis unfolding list_all_iff by blast
qed

lemma high_nibble_bound: "unat (drop_bit 4 (v :: byte)) < 16"
proof -
  have "unat v < 256" using unsigned_less [of v, where ?'a = nat] by simp
  then show ?thesis by (simp add: drop_bit_eq_div unat_div)
qed

lemma low_nibble_bound: "unat ((v :: byte) AND 0x0f) < 16"
proof -
  have "v AND 0x0f \<le> 0x0f" by (rule word_and_le1)
  then have "unat (v AND 0x0f) \<le> 15" by (simp add: word_le_nat_alt)
  then show ?thesis by simp
qed

text \<open>Uppercasing a letter a to f gives the letter A to F, 32 code points below.\<close>

lemma uppercase_letter:
  assumes "is_hex_letter c"
  shows "0x41 \<le> uppercase c \<and> uppercase c \<le> 0x46 \<and> uppercase c + 32 = c"
proof -
  have c: "97 \<le> unat c" "unat c \<le> 102"
    using assms by (simp_all add: is_hex_letter_def word_le_nat_alt)
  then have "unat (c - 32) = unat c - 32"
    by (simp add: unat_sub word_le_nat_alt)
  with c have "65 \<le> unat (c - 32) \<and> unat (c - 32) \<le> 70" by arith
  then show ?thesis
    by (simp add: uppercase_def word_le_nat_alt)
qed

lemma EncodeToString_all_chars:
  "list_all (\<lambda>c. is_hex_digit c \<or> is_hex_letter c) (EncodeToString a)"
  by (induction a) (simp_all add: hextable_nth high_nibble_bound low_nibble_bound)

lemma EncodeToString_chars:
  "c \<in> set (EncodeToString a) \<Longrightarrow> is_hex_digit c \<or> is_hex_letter c"
  using EncodeToString_all_chars [of a] unfolding list_all_iff by blast

lemma length_EncodeToString: "length (EncodeToString a) = 2 * length a"
  by (induction a) simp_all

lemma Hex_loop_eq:
  assumes "length result \<le> 2 * length hash" "i \<le> length result"
  shows "Hex_loop hash result i
       = Return (take i result @ map (\<lambda>j. step_char hash (result ! j) j) [i..<length result])"
  using assms
proof (induction "length result - i" arbitrary: result i)
  case 0
  then show ?case by (subst Hex_loop.simps) simp
next
  case (Suc k)
  let ?r = "result[i := step_char hash (result ! i) i]"
  have i: "i < length result" using Suc.hyps(2) by simp
  then have h: "i div 2 < length hash" using Suc.prems(1) by simp
  have unfold: "Hex_loop hash result i = Hex_loop hash ?r (i + 1)"
    using i h by (subst Hex_loop.simps) (simp add: step_char_def Let_def)
  have k: "k = length ?r - (i + 1)" using Suc.hyps(2) by simp
  have "Hex_loop hash ?r (i + 1)
      = Return (take (i + 1) ?r @ map (\<lambda>j. step_char hash (?r ! j) j) [i + 1..<length ?r])"
    using Suc.hyps(1) [OF k] Suc.prems(1) i by simp
  moreover have "take (i + 1) ?r = take i result @ [step_char hash (result ! i) i]"
    using i by (simp add: take_Suc_conv_app_nth)
  moreover have "map (\<lambda>j. step_char hash (?r ! j) j) [i + 1..<length ?r]
      = map (\<lambda>j. step_char hash (result ! j) j) [i + 1..<length result]"
    by simp
  moreover have "[i..<length result] = i # [i + 1..<length result]"
    using i by (simp add: upt_conv_Cons)
  ultimately show ?case using unfold by simp
qed

lemma step_char_checksum:
  assumes "is_hex_digit c \<or> is_hex_letter c" "c = u ! i"
  shows "step_char hash c i = checksum_char hash u i"
proof -
  have l: "c > 0x39 \<longleftrightarrow> is_hex_letter c"
    using assms(1) by (auto simp add: is_hex_digit_def is_hex_letter_def word_less_nat_alt word_le_nat_alt)
  have n: "(w :: byte) > 7 \<longleftrightarrow> 8 \<le> w" for w
    by (simp add: word_less_nat_alt word_le_nat_alt) arith
  show ?thesis
    using l assms(2) by (simp add: step_char_def checksum_char_def selected_nibble_def uppercase_def n even_iff_mod_2_eq_zero)
qed

text \<open>
  C5. \<open>Address.Hex\<close> is a function of the 20 address bytes: it returns the lowercase hex
  text of the address in which, position by position, a letter a to f is uppercased
  exactly when the selected nibble of the Keccak-256 digest of that text (high nibble of
  byte \<open>i div 2\<close> for even \<open>i\<close>, low nibble for odd \<open>i\<close>) is at least 8; every
  character of the text is a digit or a letter a to f, and digits stay as they are.
\<close>

theorem Address_Hex_checksum:
  assumes "length a = 20" and "length (keccak256 (EncodeToString a)) = 32"
  shows "Address_Hex keccak256 a = Return (checksum_text keccak256 a)
       \<and> length (checksum_text keccak256 a) = 40
       \<and> (\<forall>i < 40. is_hex_digit (EncodeToString a ! i) \<or> is_hex_letter (EncodeToString a ! i))"
proof -
  let ?u = "EncodeToString a"
  let ?h = "keccak256 ?u"
  have lu: "length ?u = 40" using assms(1) by (simp add: length_EncodeToString)
  have "Hex_loop ?h ?u 0 = Return (map (\<lambda>j. step_char ?h (?u ! j) j) [0..<length ?u])"
    using Hex_loop_eq [of ?u ?h 0] lu assms(2) by simp
  moreover have "map (\<lambda>j. step_char ?h (?u ! j) j) [0..<length ?u]
      = map (checksum_char ?h ?u) [0..<length ?u]"
  proof (rule map_cong [OF refl])
    fix j assume "j \<in> set [0..<length ?u]"
    then have "?u ! j \<in> set ?u" by simp
    then show "step_char ?h (?u ! j) j = checksum_char ?h ?u j"
      using EncodeToString_chars [of "?u ! j" a] by (intro step_char_checksum) simp_all
  qed
  ultimately have "Address_Hex keccak256 a = Return (checksum_text keccak256 a)"
    by (simp add: Address_Hex_def checksum_text_def Let_def)
  moreover have "length (checksum_text keccak256 a) = 40"
    using lu by (simp add: checksum_text_def Let_def)
  moreover have "is_hex_digit (?u ! i) \<or> is_hex_letter (?u ! i)" if "i < 40" for i
    using that lu EncodeToString_chars [of "?u ! i" a] by simp
  ultimately show ?thesis by blast
qed

theorem Address_Hex_checksum_witness:
  "Address_Hex (\<lambda>u. map (\<lambda>c. c * 7) (take 32 u))
     [0x00, 0x1f, 0xab, 0xcd, 0xef, 0x9a, 0xbc, 0xde, 0xf0, 0x12,
      0xa0, 0xb1, 0xc2, 0xd3, 0xe4, 0xf5, 0x6a, 0x7b, 0x8c, 0x9d]
   = Return (ascii ''001fabCDEf9ABcDEF012A0B1C2D3E4F56A7b8c9D'')"
proof -
  let ?k = "\<lambda>u :: bytes. map (\<lambda>c. c * 7) (take 32 u)"
  let ?a = "[0x00, 0x1f, 0xab, 0xcd, 0xef, 0x9a, 0xbc, 0xde, 0xf0, 0x12,
      0xa0, 0xb1, 0xc2, 0xd3, 0xe4, 0xf5, 0x6a, 0x7b, 0x8c, 0x9d] :: bytes"
  have l: "length ?a = 20" by simp
  have h: "length (?k (EncodeToString ?a)) = 32" by (simp add: length_EncodeToString)
  have c: "checksum_text ?k ?a = ascii ''001fabCDEf9ABcDEF012A0B1C2D3E4F56A7b8c9D''"
    by code_simp
  show ?thesis
    using Address_Hex_checksum [of ?a ?k] l h c by simp
qed

section \<open>Signer: layout of the signature and recovery\<close>

lemma drop_64_of_65:
  assumes "length (cs :: 'a list) = 65"
  shows "drop 64 cs = [cs ! 64]"
proof -
  have "cs ! 64 # drop (Suc 64) cs = drop 64 cs"
    using assms by (intro Cons_nth_drop_Suc) simp
  then show ?thesis using assms by simp
qed

lemma sign_rotates:
  assumes "SignCompact k d = Inr cs" "length cs = 65"
  shows "sign SignCompact k d c = Return (Inr (drop 1 cs @ [cs ! 0]))"
proof -
  have "copy_go cs (drop 1 cs) = drop 1 cs @ [cs ! 64]"
    using assms(2) drop_64_of_65 [OF assms(2)] by (simp add: copy_go_def Let_def)
  moreover have "(drop 1 cs @ [cs ! 64])[64 := cs ! 0] = drop 1 cs @ [cs ! 0]"
    using assms(2) by (simp add: list_update_append)
  ultimately show ?thesis
    using assms by (simp add: sign_def Let_def)
qed

lemma Recover_rotates:
  assumes "length sig = 65"
  shows "Recover RecoverCompact sig d = RecoverCompact (sig ! 64 # take 64 sig) d"
proof -
  have "take 1 ((replicate 65 (0 :: byte))[0 := sig ! 64]) = [sig ! 64]"
    by (simp add: numeral_eq_Suc)
  moreover have "copy_go (drop 1 ((replicate 65 (0 :: byte))[0 := sig ! 64])) sig = take 64 sig"
    using assms by (simp add: copy_go_def Let_def)
  ultimately show ?thesis
    using assms by (simp add: Recover_def Let_def)
qed

lemma rotate_back:
  assumes "length cs = 65"
  shows "(drop 1 cs @ [cs ! 0]) ! 64 # take 64 (drop 1 cs @ [cs ! 0]) = cs"
proof -
  have "(drop 1 cs @ [cs ! 0]) ! 64 = cs ! 0"
    using assms by (simp add: nth_append)
  moreover have "take 64 (drop 1 cs @ [cs ! 0]) = drop 1 cs"
    using assms by simp
  moreover have "cs ! 0 # drop 1 cs = cs"
    using assms by (cases cs) simp_all
  ultimately show ?thesis by simp
qed

lemma length_BytesToAddress: "length (BytesToAddress b) = AddressLength"
  by (simp add: BytesToAddress_def Let_def)

text \<open>
  C1. Let \<open>SignCompact\<close> return the 65-byte compact signature \<open>cs\<close> for the key \<open>k\<close>
  and the 32-byte digest \<open>d\<close>, from which \<open>RecoverCompact\<close> recovers the public key of
  \<open>k\<close> (the contract of the curve library). Then \<open>Sign\<close> returns \<open>r \<parallel> s \<parallel> recoveryID\<close>,
  the recovery id moved from the first to the last byte; \<open>Recover\<close> moves it back, hands
  the library the same \<open>cs\<close> and returns the public key of \<open>k\<close>; and the address derived
  from the recovered key is the signer's own address.
\<close>

theorem Sign_Recover_address:
  fixes k :: PrivateKey
  assumes "length d = 32"
    and "SignCompact k d = Inr cs" and "length cs = 65"
    and "RecoverCompact cs d = Inr (PublicKey.truncate k)"
    and "PubkeyToAddress Marshal Keccak (PublicKey.truncate k) = Return addr"
  shows "Sign SignCompact k d = Return (drop 1 cs @ [cs ! 0], None)
       \<and> length (drop 1 cs @ [cs ! 0]) = 65
       \<and> last (drop 1 cs @ [cs ! 0]) = cs ! 0
       \<and> Recover RecoverCompact (drop 1 cs @ [cs ! 0]) d = Inr (PublicKey.truncate k)
       \<and> getUserAddr RecoverCompact Marshal Keccak d (drop 1 cs @ [cs ! 0]) = Return (addr, None)"
proof -
  let ?sig = "drop 1 cs @ [cs ! 0]"
  have len: "length ?sig = 65" using assms(3) by simp
  have s: "Sign SignCompact k d = Return (?sig, None)"
    using sign_rotates [of SignCompact k d cs True] assms(2,3) len
    by (simp add: Sign_def Let_def copy_go_def signatureLength_def)
  have r: "Recover RecoverCompact ?sig d = Inr (PublicKey.truncate k)"
    using Recover_rotates [of ?sig RecoverCompact d] len rotate_back [OF assms(3)] assms(4) by simp
  have "length addr = AddressLength"
    using assms(5) by (auto simp add: PubkeyToAddress_def Let_def length_BytesToAddress split: if_splits)
  then have g: "getUserAddr RecoverCompact Marshal Keccak d ?sig = Return (addr, None)"
    using r assms(5) by (simp add: getUserAddr_def copy_go_def)
  show ?thesis using s len r g by simp
qed

theorem Sign_Recover_address_witness:
  "Sign toy_SignCompact \<lparr>X = Some 5, Y = Some 6, D = 5\<rparr> (replicate 32 1)
     = Return (replicate 32 1 @ replicate 32 5 @ [27], None)
   \<and> getUserAddr toy_RecoverCompact toy_Marshal toy_Keccak256 (replicate 32 1)
        (replicate 32 1 @ replicate 32 5 @ [27])
     = Return (replicate 18 0 @ [5, 6], None)"
proof -
  let ?k = "\<lparr>X = Some 5, Y = Some 6, D = 5\<rparr>"
  let ?d = "replicate 32 (1 :: byte)"
  let ?cs = "27 # replicate 32 (1 :: byte) @ replicate 32 5"
  have d: "length ?d = 32" by simp
  have s: "toy_SignCompact ?k ?d = Inr ?cs" by (simp add: toy_SignCompact_def)
  have l: "length ?cs = 65" by simp
  have r: "toy_RecoverCompact ?cs ?d = Inr (PublicKey.truncate ?k)"
    by code_simp
  have a: "PubkeyToAddress toy_Marshal toy_Keccak256 (PublicKey.truncate ?k)
         = Return (replicate 18 0 @ [5, 6])"
    by code_simp
  have e: "drop 1 ?cs @ [?cs ! 0] = replicate 32 1 @ replicate 32 5 @ [27]" by simp
  show ?thesis
    using Sign_Recover_address [where d = ?d and SignCompact = toy_SignCompact and k = ?k
        and cs = ?cs and RecoverCompact = toy_RecoverCompact and Marshal = toy_Marshal
        and Keccak = toy_Keccak256 and addr = "replicate 18 0 @ [5, 6]"] d s l r a
    unfolding e by blast
qed

text \<open>
  C6. For a signature whose length is not 65, \<open>Recover\<close> fails with the error
  ``invalid signature length'' whatever the recovery function is, so without recovering
  anything; for a signature of 65 bytes on which the recovery of the library fails,
  \<open>Recover\<close> fails with the error of the library.
\<close>

theorem Recover_invalid_signature:
  "(length signature \<noteq> 65 \<longrightarrow>
      (\<forall>rc :: bytes \<Rightarrow> bytes \<Rightarrow> error + 'p.
         Recover rc signature data = Inl (ErrorString ''invalid signature length'')))
   \<and> (length signature = 65 \<and>
        (RecoverCompact :: bytes \<Rightarrow> bytes \<Rightarrow> error + 'p) (signature ! 64 # take 64 signature) data = Inl e \<longrightarrow>
      Recover RecoverCompact signature data = Inl e)"
  using Recover_rotates [of signature RecoverCompact data]
  by (simp add: Recover_def)

theorem Recover_invalid_signature_witness:
  "Recover toy_RecoverCompact [1, 2, 3] (replicate 32 1)
     = Inl (ErrorString ''invalid signature length'')
   \<and> Recover toy_RecoverCompact (replicate 65 0) (replicate 32 1)
     = Inl (ErrorString ''invalid compact signature'')"
proof -
  have l: "length [1, 2, 3 :: byte] \<noteq> 65" by simp
  have m: "length (replicate 65 (0 :: byte)) = 65
         \<and> toy_RecoverCompact (replicate 65 0 ! 64 # take 64 (replicate 65 0)) (replicate 32 1)
             = Inl (ErrorString ''invalid compact signature'')"
    by code_simp
  have "Recover toy_RecoverCompact [1, 2, 3] (replicate 32 1)
     = Inl (ErrorString ''invalid signature length'')"
    using Recover_invalid_signature [of "[1, 2, 3]" "replicate 32 1" toy_RecoverCompact, THEN conjunct1] l
    by blast
  moreover have "Recover toy_RecoverCompact (replicate 65 0) (replicate 32 1)
     = Inl (ErrorString ''invalid compact signature'')"
    using Recover_invalid_signature [of "replicate 65 0" "replicate 32 1" toy_RecoverCompact, THEN conjunct2] m
    by blast
  ultimately show ?thesis by blast
qed

section \<open>Address: reading JSON\<close>






section \<open>Lookup: the probe and the result of the search\<close>



end
